theory Spec2Isabelle
  imports Main "HOL-Library.Mapping" "HOL-Library.AList_Mapping"
begin

section \<open>Path strings (Go's \<open>strings\<close>, \<open>bytes\<close> and \<open>path/filepath\<close> on a Unix system)\<close>

text \<open>
  Paths are strings, as in the source. The functions below follow the documented behaviour of
  the Go standard library on a system whose separator is \<open>/\<close>: \<open>HasPrefix\<close>,
  \<open>TrimPrefix\<close> and \<open>TrimSuffix\<close> of package \<open>strings\<close> (and \<open>bytes\<close>), and
  \<open>Clean\<close>, \<open>Join\<close>, \<open>Base\<close>, \<open>Dir\<close> and \<open>Split\<close> of package \<open>path/filepath\<close>.
\<close>

definition HasPrefix :: "string \<Rightarrow> string \<Rightarrow> bool" where
  "HasPrefix s pre = (take (length pre) s = pre)"

definition HasSuffix :: "string \<Rightarrow> string \<Rightarrow> bool" where
  "HasSuffix s suf = (length suf \<le> length s \<and> drop (length s - length suf) s = suf)"

definition TrimPrefix :: "string \<Rightarrow> string \<Rightarrow> string" where
  "TrimPrefix s pre = (if HasPrefix s pre then drop (length pre) s else s)"

definition TrimSuffix :: "string \<Rightarrow> string \<Rightarrow> string" where
  "TrimSuffix s suf = (if HasSuffix s suf then take (length s - length suf) s else s)"

text \<open>\<open>splitc\<close> cuts a string at every separator; \<open>joinc\<close> is \<open>strings.Join(elems, "/")\<close>.\<close>

fun splitc :: "string \<Rightarrow> string list" where
  "splitc [] = [[]]"
| "splitc (c # cs) =
     (if c = CHR ''/'' then [] # splitc cs
      else (case splitc cs of [] \<Rightarrow> [[c]] | w # ws \<Rightarrow> (c # w) # ws))"

fun joinc :: "string list \<Rightarrow> string" where
  "joinc [] = []"
| "joinc [w] = w"
| "joinc (w # v # ws) = w @ ''/'' @ joinc (v # ws)"

text \<open>
  \<open>Clean\<close> processes the elements of the path from left to right: an empty element and
  \<open>.\<close> are dropped; \<open>..\<close> removes the element before it, is dropped at the root of a
  rooted path, and is kept at the start of a relative one; the empty result is \<open>.\<close>.
\<close>

definition clean_step :: "bool \<Rightarrow> string list \<Rightarrow> string \<Rightarrow> string list" where
  "clean_step rooted st c =
     (if c = [] \<or> c = ''.'' then st
      else if c = ''..'' then
        (if st \<noteq> [] \<and> last st \<noteq> ''..'' then butlast st
         else if rooted then st else st @ [''..''])
      else st @ [c])"

definition Clean :: "string \<Rightarrow> string" where
  "Clean path =
     (case path of [] \<Rightarrow> ''.''
      | c # cs \<Rightarrow>
         (let rooted = (c = CHR ''/'');
              out = (if rooted then ''/'' else []) @ joinc (foldl (clean_step rooted) [] (splitc path))
          in if out = [] then ''.'' else out))"

text \<open>\<open>Join\<close> ignores leading empty elements, joins the rest with separators and cleans.\<close>

definition Join :: "string list \<Rightarrow> string" where
  "Join elems = (case dropWhile (\<lambda>e. e = []) elems of [] \<Rightarrow> [] | es \<Rightarrow> Clean (joinc es))"

definition Base :: "string \<Rightarrow> string" where
  "Base path =
     (if path = [] then ''.''
      else (let p = rev (dropWhile (\<lambda>c. c = CHR ''/'') (rev path))
            in if p = [] then ''/'' else rev (takeWhile (\<lambda>c. c \<noteq> CHR ''/'') (rev p))))"

text \<open>\<open>Split\<close> cuts after the last separator; \<open>Dir\<close> cleans the first half.\<close>

definition Split :: "string \<Rightarrow> string \<times> string" where
  "Split path =
     (let file = rev (takeWhile (\<lambda>c. c \<noteq> CHR ''/'') (rev path))
      in (take (length path - length file) path, file))"

definition Dir :: "string \<Rightarrow> string" where
  "Dir path = Clean (fst (Split path))"

section \<open>The file system\<close>

text \<open>
  A file-system entry is a readable regular file with its content, a regular file that cannot
  be opened for reading, or a directory with its listing in the order \<open>os.ReadDir\<close> returns it
  (sorted by name). Symbolic links and special files are outside the model.
\<close>

datatype node = Regular string | NoRead | Directory "(string \<times> node) list"

datatype io_error = ErrPermission | ErrNotExist

fun IsDir :: "node \<Rightarrow> bool" where
  "IsDir (Directory es) = True"
| "IsDir _ = False"

fun ReadFile :: "node \<Rightarrow> io_error + string" where
  "ReadFile (Regular d) = Inr d"
| "ReadFile _ = Inl ErrPermission"

text \<open>
  \<open>filepath.Walk\<close> and \<open>filepath.WalkDir\<close> visit the root and then, for a directory, its
  entries in the order of the listing, each under the path \<open>Join [path, name]\<close>, depth first.
  The walk is the list of the visits.
\<close>

fun Walk :: "string \<Rightarrow> node \<Rightarrow> (string \<times> node) list"
  and WalkEntries :: "string \<Rightarrow> (string \<times> node) list \<Rightarrow> (string \<times> node) list" where
  "Walk path (Directory es) = (path, Directory es) # WalkEntries path es"
| "Walk path (Regular d) = [(path, Regular d)]"
| "Walk path NoRead = [(path, NoRead)]"
| "WalkEntries path [] = []"
| "WalkEntries path (e # es) = Walk (Join [path, fst e]) (snd e) @ WalkEntries path es"

text \<open>
  \<open>os.Stat\<close> of a path inside the tree that lives at \<open>p\<close>: the path is \<open>p\<close> itself, or
  \<open>p\<close> followed by a separator and the names that lead to the entry.
\<close>

fun find_entry :: "node \<Rightarrow> string list \<Rightarrow> node option" where
  "find_entry n [] = Some n"
| "find_entry (Directory es) (c # cs) =
     (case map_of es c of None \<Rightarrow> None | Some n \<Rightarrow> find_entry n cs)"
| "find_entry _ (c # cs) = None"

definition StatIn :: "string \<Rightarrow> node \<Rightarrow> string \<Rightarrow> node option" where
  "StatIn p root path =
     (if path = p then Some root
      else if HasPrefix path (p @ ''/'') then find_entry root (splitc (drop (length p + 1) path))
      else None)"

text \<open>
  \<open>filepath.Glob\<close> for a pattern whose directory part is literal: the directory part is
  listed, and every name that matches the last element is returned, joined to the directory.
  A directory part that is missing or not a directory gives no match. \<open>Match\<close> covers the
  patterns used here, a literal name or a star followed by a literal.
\<close>

definition cleanGlobPath :: "string \<Rightarrow> string" where
  "cleanGlobPath path = (if path = [] then ''.'' else if path = ''/'' then path else butlast path)"

definition Match :: "string \<Rightarrow> string \<Rightarrow> bool" where
  "Match pattern name =
     (case pattern of [] \<Rightarrow> name = []
      | c # lit \<Rightarrow>
          (if c = CHR ''*''
           then HasSuffix name lit \<and> CHR ''/'' \<notin> set (take (length name - length lit) name)
           else name = pattern))"

definition Glob :: "string \<Rightarrow> node \<Rightarrow> string \<Rightarrow> string list" where
  "Glob p root pattern =
     (let dir = cleanGlobPath (fst (Split pattern)); file = snd (Split pattern) in
      case StatIn p root dir of
        Some (Directory es) \<Rightarrow> map (\<lambda>e. Join [dir, fst e]) (filter (\<lambda>e. Match file (fst e)) es)
      | _ \<Rightarrow> [])"

section \<open>The source: \<open>internal/testutils/files.go\<close>\<close>

definition fileForEmptyDir :: string where
  "fileForEmptyDir = ''.empty''"

definition GVariant :: string where
  "GVariant = ''GVariant''"

subsection \<open>\<open>treeContent\<close>\<close>

text \<open>
  The callback of the walk in \<open>treeContent\<close>: a path whose base name is the marker's is left
  out; a file is read (a failure ends the walk) and left out when its content starts with the
  header to ignore; everything else is recorded under its path with the root trimmed off.
\<close>

definition treeContent_visit ::
  "string \<Rightarrow> string option \<Rightarrow> (string, string) mapping \<Rightarrow> string \<times> node \<Rightarrow>
     io_error + (string, string) mapping" where
  "treeContent_visit dir ignoreHeaders r v =
     (let path = fst v; info = snd v in
      if Base path = fileForEmptyDir then Inr r
      else if \<not> IsDir info then
        (case ReadFile info of
           Inl err \<Rightarrow> Inl err
         | Inr d \<Rightarrow>
             (if (case ignoreHeaders of None \<Rightarrow> False | Some h \<Rightarrow> HasPrefix d h) then Inr r
              else Inr (Mapping.update (TrimPrefix path dir) d r)))
      else Inr (Mapping.update (TrimPrefix path dir) [] r))"

fun walk_with :: "('s \<Rightarrow> 'v \<Rightarrow> io_error + 's) \<Rightarrow> 'v list \<Rightarrow> 's \<Rightarrow> io_error + 's" where
  "walk_with f [] s = Inr s"
| "walk_with f (v # vs) s = (case f s v of Inl err \<Rightarrow> Inl err | Inr s' \<Rightarrow> walk_with f vs s')"

definition treeContent :: "string \<Rightarrow> node \<Rightarrow> string option \<Rightarrow> io_error + (string, string) mapping" where
  "treeContent dir root ignoreHeaders =
     walk_with (treeContent_visit dir ignoreHeaders) (Walk dir root) Mapping.empty"

subsection \<open>\<open>ignoreDconfDB\<close>\<close>

text \<open>
  The entries handed to the filter are the listing of \<open>src\<close>; reading the file
  \<open>Join [src, name]\<close> is reading the entry of that name. A directory is passed over, a file
  that cannot be read is passed over, and a file whose content starts with \<open>GVariant\<close> is named.
\<close>

fun ignoreDconfDB :: "string \<Rightarrow> (string \<times> node) list \<Rightarrow> string list" where
  "ignoreDconfDB src [] = []"
| "ignoreDconfDB src (e # es) =
     (if IsDir (snd e) then ignoreDconfDB src es
      else (case ReadFile (snd e) of
              Inl err \<Rightarrow> ignoreDconfDB src es
            | Inr d \<Rightarrow>
                (if HasPrefix d GVariant then fst e # ignoreDconfDB src es
                 else ignoreDconfDB src es)))"

subsection \<open>\<open>shutil.CopyTree\<close> as the source calls it\<close>

text \<open>
  \<open>CopyTree\<close> of the package \<open>go-shutil\<close>, with the options of the call
  (\<open>Ignore\<close>, and \<open>shutil.Copy\<close> as the copy function): the source must be a directory and the
  destination must not exist; the source is listed, \<open>Ignore\<close> is asked for the names to leave
  out, and every other entry is copied in the order of the listing, a directory by the same
  procedure and a file by the copy function, which fails on a file it cannot open. The first
  failure ends the copy.
\<close>

datatype copy_error = NotADirectoryError | AlreadyExistsError | SourceError io_error

type_synonym fs = "string \<rightharpoonup> node"

fun CopyTree_node ::
    "(string \<Rightarrow> (string \<times> node) list \<Rightarrow> string list) \<Rightarrow> string \<Rightarrow> node \<Rightarrow> copy_error + node"
  and CopyTree_entries ::
    "(string \<Rightarrow> (string \<times> node) list \<Rightarrow> string list) \<Rightarrow> string \<Rightarrow> string list \<Rightarrow>
       (string \<times> node) list \<Rightarrow> copy_error + (string \<times> node) list" where
  "CopyTree_node ignore src (Directory es) =
     (case CopyTree_entries ignore src (ignore src es) es of
        Inl err \<Rightarrow> Inl err
      | Inr es' \<Rightarrow> Inr (Directory es'))"
| "CopyTree_node ignore src (Regular d) = Inr (Regular d)"
| "CopyTree_node ignore src NoRead = Inl (SourceError ErrPermission)"
| "CopyTree_entries ignore src ignoredNames [] = Inr []"
| "CopyTree_entries ignore src ignoredNames (e # es) =
     (if fst e \<in> set ignoredNames then CopyTree_entries ignore src ignoredNames es
      else (case CopyTree_node ignore (Join [src, fst e]) (snd e) of
              Inl err \<Rightarrow> Inl err
            | Inr n \<Rightarrow>
                (case CopyTree_entries ignore src ignoredNames es of
                   Inl err \<Rightarrow> Inl err
                 | Inr es' \<Rightarrow> Inr ((fst e, n) # es'))))"

definition CopyTree ::
  "fs \<Rightarrow> string \<Rightarrow> string \<Rightarrow> (string \<Rightarrow> (string \<times> node) list \<Rightarrow> string list) \<Rightarrow> copy_error + fs" where
  "CopyTree fs src dst ignore =
     (case fs src of
        None \<Rightarrow> Inl (SourceError ErrNotExist)
      | Some n \<Rightarrow>
          (if \<not> IsDir n then Inl NotADirectoryError
           else (case fs dst of
                   Some _ \<Rightarrow> Inl AlreadyExistsError
                 | None \<Rightarrow>
                     (case CopyTree_node ignore src n of
                        Inl err \<Rightarrow> Inl err
                      | Inr n' \<Rightarrow> Inr (fs(dst \<mapsto> n'))))))"

subsection \<open>\<open>addEmptyMarker\<close>\<close>

text \<open>
  The walk of \<open>addEmptyMarker\<close> creates the marker in every directory whose listing is empty.
  \<open>filepath.Walk\<close> has read the names of a directory before it calls the callback on it, so a
  marker is not visited in the walk that creates it. A root that does not exist is an error.
\<close>

fun addEmptyMarker_node :: "node \<Rightarrow> node"
  and addEmptyMarker_entries :: "(string \<times> node) list \<Rightarrow> (string \<times> node) list" where
  "addEmptyMarker_node (Directory es) =
     (if length es = 0 then Directory [(fileForEmptyDir, Regular [])]
      else Directory (addEmptyMarker_entries es))"
| "addEmptyMarker_node (Regular d) = Regular d"
| "addEmptyMarker_node NoRead = NoRead"
| "addEmptyMarker_entries [] = []"
| "addEmptyMarker_entries (e # es) = (fst e, addEmptyMarker_node (snd e)) # addEmptyMarker_entries es"

definition addEmptyMarker :: "fs \<Rightarrow> string \<Rightarrow> io_error + fs" where
  "addEmptyMarker fs p =
     (case fs p of None \<Rightarrow> Inl ErrNotExist | Some n \<Rightarrow> Inr (fs(p \<mapsto> addEmptyMarker_node n)))"

subsection \<open>\<open>CompareTreesWithFiltering\<close>\<close>

text \<open>
  The file system is a store of trees by the path of their root; the actual tree and the
  golden tree are the trees at \<open>p\<close> and at \<open>goldPath\<close>, and neither lies inside the other.
  A run ends in a fatal failure (\<open>require\<close>, \<open>t.Fatalf\<close>), in the return that follows the
  removal of the golden tree when \<open>p\<close> does not exist, or at one of the two later returns, with
  the failures that \<open>assert\<close> has recorded. The state that a fatal failure leaves behind is
  not followed.
\<close>

datatype fatal =
    CannotUpdateGolden copy_error
  | CannotCreateEmptyFile io_error
  | NoGeneratedContent io_error
  | NoGoldenDirectory io_error

datatype failure = ContentDiffers | BinaryMissing string

datatype outcome = Fatal fatal | ReturnedAfterRemoval fs | Finished fs "failure list"

text \<open>The walk that looks for the dconf directory (lines 86 to 99).\<close>

definition dconfDir_visit :: "string \<Rightarrow> string \<times> node \<Rightarrow> string" where
  "dconfDir_visit dconfDir v =
     (if \<not> IsDir (snd v) then dconfDir
      else if Base (fst v) = ''db'' then Dir (fst v)
      else dconfDir)"

definition find_dconfDir :: "string \<Rightarrow> node \<Rightarrow> string" where
  "find_dconfDir p root = foldl dconfDir_visit p (Walk p root)"

text \<open>The check of the databases (lines 102 to 107): one failure for each path whose stat fails.\<close>

definition check_dbs :: "string \<Rightarrow> node \<Rightarrow> failure list" where
  "check_dbs p root =
     (let dconfDir = find_dconfDir p root;
          dbs = Glob p root (Join [dconfDir, ''db'', ''*.d''])
      in map (\<lambda>db. BinaryMissing (TrimSuffix db ''.db''))
           (filter (\<lambda>db. StatIn p root (TrimSuffix db ''.db'') = None) dbs))"

text \<open>
  Lines 61 to 76: the snapshot of a root, \<open>None\<close> (the nil map) when the root does not exist.
\<close>

definition snapshot :: "fs \<Rightarrow> string \<Rightarrow> string option \<Rightarrow> io_error + (string, string) mapping option" where
  "snapshot fs path ignoreHeaders =
     (case fs path of
        None \<Rightarrow> Inr None
      | Some root \<Rightarrow>
          (case treeContent path root ignoreHeaders of
             Inl err \<Rightarrow> Inl err
           | Inr r \<Rightarrow> Inr (Some r)))"

text \<open>Lines 61 to 107: the two snapshots, their comparison, and the check of the databases.\<close>

definition compare_content :: "fs \<Rightarrow> string \<Rightarrow> string \<Rightarrow> outcome" where
  "compare_content fs p goldPath =
     (case snapshot fs p (Some GVariant) of
        Inl err \<Rightarrow> Fatal (NoGeneratedContent err)
      | Inr gotContent \<Rightarrow>
          (case snapshot fs goldPath None of
             Inl err \<Rightarrow> Fatal (NoGoldenDirectory err)
           | Inr goldContent \<Rightarrow>
               (let failed = (if goldContent = gotContent then [] else [ContentDiffers]) in
                case fs p of
                  None \<Rightarrow> Finished fs failed
                | Some root \<Rightarrow> Finished fs (failed @ check_dbs p root))))"

definition CompareTreesWithFiltering :: "fs \<Rightarrow> string \<Rightarrow> string \<Rightarrow> bool \<Rightarrow> outcome" where
  "CompareTreesWithFiltering fs p goldPath update =
     (if update then
        (let fs1 = fs(goldPath := None) in
         case fs1 p of
           None \<Rightarrow> ReturnedAfterRemoval fs1
         | Some root \<Rightarrow>
             (case CopyTree fs1 p goldPath ignoreDconfDB of
                Inl err \<Rightarrow> Fatal (CannotUpdateGolden err)
              | Inr fs2 \<Rightarrow>
                  (case addEmptyMarker fs2 goldPath of
                     Inl err \<Rightarrow> Fatal (CannotCreateEmptyFile err)
                   | Inr fs3 \<Rightarrow> compare_content fs3 p goldPath)))
      else compare_content fs p goldPath)"

section \<open>Well-formed trees and plain paths\<close>

text \<open>
  The name of a directory entry is not empty, holds no separator, and is neither \<open>.\<close> nor
  \<open>..\<close>; the names of one directory are distinct. A plain path is an absolute or relative path
  made of such names.
\<close>

definition valid_name :: "string \<Rightarrow> bool" where
  "valid_name n = (n \<noteq> [] \<and> CHR ''/'' \<notin> set n \<and> n \<noteq> ''.'' \<and> n \<noteq> ''..'')"

fun wf_node :: "node \<Rightarrow> bool"
  and wf_entries :: "(string \<times> node) list \<Rightarrow> bool" where
  "wf_node (Directory es) = wf_entries es"
| "wf_node (Regular d) = True"
| "wf_node NoRead = True"
| "wf_entries [] = True"
| "wf_entries (e # es) =
     (valid_name (fst e) \<and> fst e \<notin> set (map fst es) \<and> wf_node (snd e) \<and> wf_entries es)"

definition plain_path :: "string \<Rightarrow> bool" where
  "plain_path p =
     (case splitc p of
        [] \<Rightarrow> False
      | c # cs \<Rightarrow> (if c = [] then cs \<noteq> [] \<and> list_all valid_name cs
                  else list_all valid_name (c # cs)))"

text \<open>What a run has recorded, when it was not aborted, and whether it reached the comparison.\<close>

fun recorded :: "outcome \<Rightarrow> failure list option" where
  "recorded (Fatal f) = None"
| "recorded (ReturnedAfterRemoval fs) = Some []"
| "recorded (Finished fs fails) = Some fails"


fun state_after :: "outcome \<Rightarrow> fs option" where
  "state_after (Fatal f) = None"
| "state_after (ReturnedAfterRemoval fs) = Some fs"
| "state_after (Finished fs fails) = Some fs"

text \<open>
  The walk in names: every visit with the names that lead from the root to the entry.
  \<open>rel\<close> writes such a list of names as the tail of a path.
\<close>

definition rel :: "string list \<Rightarrow> string" where
  "rel ns = concat (map (\<lambda>n. ''/'' @ n) ns)"

fun rwalk :: "string list \<Rightarrow> node \<Rightarrow> (string list \<times> node) list"
  and rwalk_entries :: "string list \<Rightarrow> (string \<times> node) list \<Rightarrow> (string list \<times> node) list" where
  "rwalk ns (Directory es) = (ns, Directory es) # rwalk_entries ns es"
| "rwalk ns (Regular d) = [(ns, Regular d)]"
| "rwalk ns NoRead = [(ns, NoRead)]"
| "rwalk_entries ns [] = []"
| "rwalk_entries ns (e # es) = rwalk (ns @ [fst e]) (snd e) @ rwalk_entries ns es"



text \<open>A file that the filter of the copy names.\<close>

fun is_GVariant :: "node \<Rightarrow> bool" where
  "is_GVariant (Regular d) = HasPrefix d GVariant"
| "is_GVariant _ = False"

section \<open>Paths made of plain names\<close>


lemma joinc_Cons_char: "joinc ((a # w) # ws) = a # joinc (w # ws)"
  by (cases ws) auto

lemma joinc_Nil_Cons: "ws \<noteq> [] \<Longrightarrow> joinc ([] # ws) = CHR ''/'' # joinc ws"
  by (cases ws) auto

lemma joinc_splitc: "joinc (splitc s) = s"
  by (induction s) (auto split: list.splits simp: joinc_Cons_char joinc_Nil_Cons)

lemma splitc_ne: "splitc s \<noteq> []"
  by (induction s) (auto split: list.splits)

lemma splitc_plain: "CHR ''/'' \<notin> set n \<Longrightarrow> splitc n = [n]"
  by (induction n) (auto split: list.splits)

lemma splitc_append: "splitc (a @ CHR ''/'' # b) = splitc a @ splitc b"
  by (induction a) (auto split: list.splits simp: splitc_ne)

lemma splitc_snoc: "CHR ''/'' \<notin> set n \<Longrightarrow> splitc (a @ ''/'' @ n) = splitc a @ [n]"
  by (simp add: splitc_append splitc_plain)


lemma clean_step_valid: "valid_name n \<Longrightarrow> clean_step r st n = st @ [n]"
  by (auto simp: clean_step_def valid_name_def)

lemma foldl_clean_valid: "list_all valid_name ns \<Longrightarrow> foldl (clean_step r) st ns = st @ ns"
  by (induction ns arbitrary: st) (auto simp: clean_step_valid)

lemma foldl_clean_rooted:
  "list_all valid_name ns \<Longrightarrow> foldl (clean_step r) [] ([] # ns) = ns"
  by (simp add: foldl_clean_valid clean_step_def)

lemma plain_path_cases:
  assumes "plain_path p"
  obtains (abs) ns where "ns \<noteq> []" "list_all valid_name ns" "splitc p = [] # ns" "p = CHR ''/'' # joinc ns"
        | (rel) ns where "ns \<noteq> []" "list_all valid_name ns" "splitc p = ns" "p = joinc ns" "hd p \<noteq> CHR ''/''"
proof (cases "splitc p")
  case Nil then show ?thesis using assms by (simp add: plain_path_def)
next
  case (Cons c cs)
  show ?thesis
  proof (cases "c = []")
    case True
    with Cons assms have a: "cs \<noteq> []" "list_all valid_name cs" by (auto simp: plain_path_def)
    have "p = joinc ([] # cs)" using joinc_splitc[of p] Cons True by simp
    then have "p = CHR ''/'' # joinc cs" using a by (simp add: joinc_Nil_Cons)
    then show ?thesis using abs a Cons True by blast
  next
    case False
    with Cons assms have a: "list_all valid_name (c # cs)" by (auto simp: plain_path_def)
    have b: "p = joinc (c # cs)" using joinc_splitc[of p] Cons by simp
    obtain x w where c: "c = x # w" using False by (cases c) auto
    have "x \<noteq> CHR ''/''" using a c by (auto simp: valid_name_def)
    then have "hd p \<noteq> CHR ''/''" using b c by (simp add: joinc_Cons_char)
    then show ?thesis using rel[of "c # cs"] a b Cons by simp
  qed
qed

lemma plain_path_ne: "plain_path p \<Longrightarrow> p \<noteq> []"
  by (erule plain_path_cases) (auto simp: neq_Nil_conv joinc_Cons_char valid_name_def)

lemma joinc_ne: "ns \<noteq> [] \<Longrightarrow> list_all valid_name ns \<Longrightarrow> joinc ns \<noteq> []"
  by (cases ns rule: joinc.cases) (auto simp: valid_name_def)

lemma Clean_unfold:
  "p \<noteq> [] \<Longrightarrow> Clean p =
     (let out = (if hd p = CHR ''/'' then ''/'' else []) @
                joinc (foldl (clean_step (hd p = CHR ''/'')) [] (splitc p))
      in if out = [] then ''.'' else out)"
  by (cases p) (simp_all add: Clean_def Let_def)

lemma Clean_plain: "plain_path p \<Longrightarrow> Clean p = p"
proof (erule plain_path_cases)
  fix ns assume a: "ns \<noteq> []" "list_all valid_name ns" "splitc p = [] # ns" "p = CHR ''/'' # joinc ns"
  have "foldl (clean_step True) [] (splitc p) = ns"
    unfolding a(3) using a(2) by (rule foldl_clean_rooted)
  moreover have "p \<noteq> []" "hd p = CHR ''/''" using a(4) by auto
  ultimately have "Clean p = ''/'' @ joinc ns"
    by (simp add: Clean_unfold[of p] Let_def)
  then show "Clean p = p" using a(4) by simp
next
  fix ns assume a: "ns \<noteq> []" "list_all valid_name ns" "splitc p = ns" "p = joinc ns" "hd p \<noteq> CHR ''/''"
  have ne: "p \<noteq> []" using a joinc_ne by auto
  have "foldl (clean_step False) [] (splitc p) = ns"
    unfolding a(3) using a(2) by (simp add: foldl_clean_valid)
  moreover have "joinc ns \<noteq> []" using ne a(4) by simp
  ultimately have "Clean p = joinc ns"
    using ne a(5) by (simp add: Clean_unfold[of p] Let_def)
  then show "Clean p = p" using a(4) by simp
qed

lemma plain_path_snoc:
  assumes "plain_path p" "valid_name n"
  shows "plain_path (p @ ''/'' @ n)"
proof -
  have s: "splitc (p @ ''/'' @ n) = splitc p @ [n]"
    using assms(2) by (intro splitc_snoc) (simp add: valid_name_def)
  show ?thesis using assms(1)
  proof (rule plain_path_cases)
    fix ns assume "ns \<noteq> []" "list_all valid_name ns" "splitc p = [] # ns"
    then show ?thesis using s assms(2) by (simp add: plain_path_def)
  next
    fix ns assume a: "ns \<noteq> []" "list_all valid_name ns" "splitc p = ns"
    then obtain c cs where "ns = c # cs" by (cases ns) auto
    then show ?thesis using s assms(2) a by (auto simp: plain_path_def valid_name_def)
  qed
qed

lemma Join_plain:
  assumes "plain_path p" "valid_name n"
  shows "Join [p, n] = p @ ''/'' @ n"
proof -
  have "p \<noteq> []" using assms(1) by (rule plain_path_ne)
  then have "Join [p, n] = Clean (p @ ''/'' @ n)" by (simp add: Join_def)
  then show ?thesis using Clean_plain[OF plain_path_snoc[OF assms]] by simp
qed


lemma Base_snoc:
  assumes "valid_name n"
  shows "Base (d @ ''/'' @ n) = n"
proof -
  have n: "n \<noteq> []" "CHR ''/'' \<notin> set n" using assms by (auto simp: valid_name_def)
  then obtain x xs where r: "rev n = x # xs" by (cases "rev n") auto
  then have x: "x \<noteq> CHR ''/''" using n(2) by (metis list.set_intros(1) set_rev)
  have rv: "rev (d @ ''/'' @ n) = rev n @ CHR ''/'' # rev d" by simp
  have dw: "dropWhile (\<lambda>c. c = CHR ''/'') (rev n @ CHR ''/'' # rev d) = rev n @ CHR ''/'' # rev d"
    using r x by simp
  have tw: "takeWhile (\<lambda>c. c \<noteq> CHR ''/'') (rev n @ CHR ''/'' # rev d) = rev n"
    using n(2) by (simp add: takeWhile_append)
  have "Base (d @ ''/'' @ n) = rev (takeWhile (\<lambda>c. c \<noteq> CHR ''/'') (rev n @ CHR ''/'' # rev d))"
    unfolding Base_def rv dw Let_def by simp
  also have "\<dots> = n" unfolding tw by simp
  finally show ?thesis .
qed

lemma TrimPrefix_append: "TrimPrefix (d @ k) d = k"
  by (simp add: TrimPrefix_def HasPrefix_def)

section \<open>The comparison and the early return\<close>




section \<open>The check of the databases\<close>

text \<open>
  C1: for every match of \<open>db/*.d\<close> the check asserts that a file exists at the path with the
  trailing \<open>.d\<close> removed, so a tree with the directory \<open>db/sub.d\<close> and no file \<open>db/sub\<close> gets a
  failure for \<open>db/sub\<close>. The source trims the suffix \<open>.db\<close> (line 105), which a match of
  \<open>*.d\<close> never ends in: the path that is looked up is the match itself, which exists. On the
  tree of the scenario \<open>db/sub\<close> does not exist, and no failure is recorded.
\<close>

theorem C1_missing_binary_is_not_reported:
  "StatIn ''/out'' (Directory [(''db'', Directory [(''sub.d'', Directory [])])]) ''/out/db/sub'' = None
   \<and> Glob ''/out'' (Directory [(''db'', Directory [(''sub.d'', Directory [])])])
        (Join [''/out'', ''db'', ''*.d'']) = [''/out/db/sub.d'']
   \<and> TrimSuffix ''/out/db/sub.d'' ''.db'' = ''/out/db/sub.d''
   \<and> check_dbs ''/out'' (Directory [(''db'', Directory [(''sub.d'', Directory [])])]) = []
   \<and> recorded (CompareTreesWithFiltering
        [''/out'' \<mapsto> Directory [(''db'', Directory [(''sub.d'', Directory [])])],
         ''/gold'' \<mapsto> Directory [(''db'', Directory [(''sub.d'', Directory [])])]]
        ''/out'' ''/gold'' False) = Some []"
  by code_simp

section \<open>The walk in names\<close>

lemma rel_Nil: "rel [] = []" by (simp add: rel_def)
lemma rel_snoc: "rel (ns @ [n]) = rel ns @ ''/'' @ n" by (simp add: rel_def)


lemma plain_path_rel: "plain_path p \<Longrightarrow> list_all valid_name ns \<Longrightarrow> plain_path (p @ rel ns)"
proof (induction ns rule: rev_induct)
  case Nil then show ?case by (simp add: rel_Nil)
next
  case (snoc n ns)
  then have "plain_path ((p @ rel ns) @ ''/'' @ n)" by (intro plain_path_snoc) auto
  then show ?case by (simp add: rel_snoc)
qed

lemma Join_rel:
  assumes "plain_path p" "list_all valid_name ns" "valid_name n"
  shows "Join [p @ rel ns, n] = p @ rel (ns @ [n])"
  using Join_plain[OF plain_path_rel[OF assms(1,2)] assms(3)] by (simp add: rel_snoc)

lemma Walk_rwalk:
  "plain_path p \<Longrightarrow> list_all valid_name ns \<Longrightarrow> wf_node t \<Longrightarrow>
     Walk (p @ rel ns) t = map (\<lambda>v. (p @ rel (fst v), snd v)) (rwalk ns t)"
  "plain_path p \<Longrightarrow> list_all valid_name ns \<Longrightarrow> wf_entries es \<Longrightarrow>
     WalkEntries (p @ rel ns) es = map (\<lambda>v. (p @ rel (fst v), snd v)) (rwalk_entries ns es)"
proof (induction ns t and ns es rule: rwalk_rwalk_entries.induct)
  case (5 ns e es)
  have "Join [p @ rel ns, fst e] = p @ rel (ns @ [fst e])"
    using 5 by (intro Join_rel) auto
  then show ?case using 5 by simp
qed simp_all

lemma Walk_rwalk_root:
  "plain_path p \<Longrightarrow> wf_node t \<Longrightarrow> Walk p t = map (\<lambda>v. (p @ rel (fst v), snd v)) (rwalk [] t)"
  using Walk_rwalk(1)[of p "[]" t] by (simp add: rel_Nil)

text \<open>Names of the visits of a walk in names.\<close>

lemma rwalk_names:
  "wf_node t \<Longrightarrow> list_all valid_name ns \<Longrightarrow> v \<in> set (rwalk ns t) \<Longrightarrow>
     list_all valid_name (fst v) \<and> (\<exists>ks. fst v = ns @ ks \<and> find_entry t ks = Some (snd v))"
  "wf_entries es \<Longrightarrow> list_all valid_name ns \<Longrightarrow> v \<in> set (rwalk_entries ns es) \<Longrightarrow>
     list_all valid_name (fst v) \<and> (\<exists>ks. ks \<noteq> [] \<and> fst v = ns @ ks \<and> find_entry (Directory es) ks = Some (snd v))"
proof (induction ns t and ns es arbitrary: v and v rule: rwalk_rwalk_entries.induct)
  case (1 ns es)
  show ?case
  proof (cases "v = (ns, Directory es)")
    case True then show ?thesis using 1 by auto
  next
    case False
    then have "v \<in> set (rwalk_entries ns es)" using 1 by simp
    then show ?thesis using 1 by fastforce
  qed
next
  case (5 ns e es)
  show ?case
  proof (cases "v \<in> set (rwalk (ns @ [fst e]) (snd e))")
    case True
    then have a: "list_all valid_name (fst v)" and "\<exists>ks. fst v = (ns @ [fst e]) @ ks \<and> find_entry (snd e) ks = Some (snd v)"
      using 5 by auto
    then obtain ks where k: "fst v = ns @ (fst e # ks)" "find_entry (snd e) ks = Some (snd v)" by auto
    have "find_entry (Directory (e # es)) (fst e # ks) = Some (snd v)"
      using k(2) by (cases e) simp
    then show ?thesis using a k(1) by blast
  next
    case False
    then have "v \<in> set (rwalk_entries ns es)" using 5 by auto
    then have a: "list_all valid_name (fst v)"
      and "\<exists>ks. ks \<noteq> [] \<and> fst v = ns @ ks \<and> find_entry (Directory es) ks = Some (snd v)"
      using 5 by auto
    then obtain ks where k: "ks \<noteq> []" "fst v = ns @ ks" "find_entry (Directory es) ks = Some (snd v)" by auto
    then obtain c cs where c: "ks = c # cs" by (cases ks) auto
    have "map_of es c \<noteq> None" using k(3) c by (auto split: option.splits)
    then have "c \<in> fst ` set es" by (metis map_of_eq_None_iff)
    moreover have "fst e \<notin> fst ` set es" using "5.prems"(1) by simp
    ultimately have "c \<noteq> fst e" by blast
    then have "find_entry (Directory (e # es)) ks = Some (snd v)"
      using k(3) c by (cases e) auto
    then show ?thesis using a k by blast
  qed
qed auto

section \<open>The snapshot\<close>

lemma treeContent_visit_keys:
  "treeContent_visit dir h r v = Inr m \<Longrightarrow>
     m = r \<or> (Base (fst v) \<noteq> fileForEmptyDir \<and> (\<exists>c. m = Mapping.update (TrimPrefix (fst v) dir) c r))"
  by (auto simp: treeContent_visit_def Let_def split: if_splits sum.splits)

lemma walk_with_keys:
  "walk_with (treeContent_visit dir h) vs r = Inr m \<Longrightarrow> k \<in> Mapping.keys m \<Longrightarrow>
     k \<in> Mapping.keys r \<or>
     (\<exists>v \<in> set vs. Base (fst v) \<noteq> fileForEmptyDir \<and> k = TrimPrefix (fst v) dir)"
proof (induction vs arbitrary: r)
  case Nil then show ?case by simp
next
  case (Cons v vs)
  then obtain r' where r': "treeContent_visit dir h r v = Inr r'"
    and w: "walk_with (treeContent_visit dir h) vs r' = Inr m"
    by (auto split: sum.splits)
  from Cons.IH[OF w Cons.prems(2)] show ?case
  proof
    assume "k \<in> Mapping.keys r'"
    then show ?thesis using treeContent_visit_keys[OF r'] by auto
  next
    assume "\<exists>v\<in>set vs. Base (fst v) \<noteq> fileForEmptyDir \<and> k = TrimPrefix (fst v) dir"
    then show ?thesis by auto
  qed
qed

lemma Base_snoc_char: "valid_name n \<Longrightarrow> Base (d @ CHR ''/'' # n) = n"
  using Base_snoc[of n d] by simp

text \<open>
  C6: a snapshot built by \<open>treeContent\<close> never holds the marker as a keyed entry, for any
  directory and any header: every key of the snapshot is the trimmed path of a visit whose
  base name is not the marker's. For a well-formed tree at a plain path, no key has the
  marker's name as its base name.
\<close>

theorem C6_marker_is_never_a_key:
  assumes "treeContent dir root ignoreHeaders = Inr m" and "k \<in> Mapping.keys m"
  shows "(\<exists>v \<in> set (Walk dir root). Base (fst v) \<noteq> fileForEmptyDir \<and> k = TrimPrefix (fst v) dir)
       \<and> (plain_path dir \<and> wf_node root \<longrightarrow> Base k \<noteq> fileForEmptyDir)"
proof -
  have a: "\<exists>v \<in> set (Walk dir root). Base (fst v) \<noteq> fileForEmptyDir \<and> k = TrimPrefix (fst v) dir"
    using walk_with_keys[OF assms(1)[unfolded treeContent_def] assms(2)] by simp
  have "Base k \<noteq> fileForEmptyDir" if pw: "plain_path dir" "wf_node root"
  proof -
    from a obtain v where v: "v \<in> set (Walk dir root)" "Base (fst v) \<noteq> fileForEmptyDir"
      "k = TrimPrefix (fst v) dir" by auto
    then obtain w where w: "w \<in> set (rwalk [] root)" "v = (dir @ rel (fst w), snd w)"
      using Walk_rwalk_root[OF pw] by auto
    have ns: "list_all valid_name (fst w)" using rwalk_names(1)[OF pw(2) _ w(1)] by simp
    have k: "k = rel (fst w)" using v(3) w(2) by (simp add: TrimPrefix_append)
    show ?thesis
    proof (cases "fst w" rule: rev_cases)
      case Nil then show ?thesis using k by (simp add: rel_Nil Base_def fileForEmptyDir_def)
    next
      case (snoc ms n)
      then have vn: "valid_name n" using ns by simp
      have "Base (fst v) = n" using w(2) snoc vn by (simp add: rel_snoc Base_snoc_char[of n "dir @ rel ms", simplified])
      moreover have "Base k = n" using k snoc vn by (simp add: rel_snoc Base_snoc_char)
      ultimately show ?thesis using v(2) by simp
    qed
  qed
  then show ?thesis using a by blast
qed

theorem C6_marker_is_never_a_key_witness:
  "treeContent ''/out'' (Directory [(''.empty'', Regular []), (''a'', Regular ''x'')]) None
     = Inr (Mapping.update ''/a'' ''x'' (Mapping.update [] [] Mapping.empty))
   \<and> plain_path ''/out''
   \<and> wf_node (Directory [(''.empty'', Regular []), (''a'', Regular ''x'')])
   \<and> Base ''/a'' \<noteq> fileForEmptyDir"
proof -
  let ?root = "Directory [(''.empty'', Regular []), (''a'', Regular ''x'')]"
  let ?m = "Mapping.update ''/a'' ''x'' (Mapping.update [] [] Mapping.empty)"
  have t: "treeContent ''/out'' ?root None = Inr ?m" by code_simp
  have k: "''/a'' \<in> Mapping.keys ?m" by simp
  have p: "plain_path ''/out'' \<and> wf_node ?root" by code_simp
  show ?thesis using C6_marker_is_never_a_key [OF t k] t p by blast
qed







section \<open>The search for the dconf directory\<close>

lemma foldl_dconfDir_visit:
  "foldl dconfDir_visit d vs =
     (case filter (\<lambda>v. IsDir (snd v) \<and> Base (fst v) = ''db'') vs of
        [] \<Rightarrow> d
      | w # ws \<Rightarrow> Dir (fst (last (w # ws))))"
proof (induction vs rule: rev_induct)
  case Nil then show ?case by simp
next
  case (snoc v vs)
  define acc where "acc = foldl dconfDir_visit d vs"
  have "foldl dconfDir_visit d (vs @ [v]) = dconfDir_visit acc v" by (simp add: acc_def)
  also have "\<dots> = (if IsDir (snd v) \<and> Base (fst v) = ''db'' then Dir (fst v) else acc)"
    by (simp add: dconfDir_visit_def)
  finally show ?case
    unfolding acc_def snoc.IH by (simp split: list.splits)
qed

text \<open>
  C4, as stated: the search selects the deepest directory named \<open>db\<close>. It selects the one
  that the walk visits last: in the tree below, \<open>a/b/db\<close> lies deeper than \<open>db\<close>, and the
  walk, which visits \<open>a\<close> before \<open>db\<close>, ends with the parent of \<open>db\<close>.
\<close>

theorem C4_last_match_is_not_the_deepest:
  "find_dconfDir ''/out''
     (Directory [(''a'', Directory [(''b'', Directory [(''db'', Directory [])])]),
                 (''db'', Directory [])]) = ''/out''
   \<and> map fst (Walk ''/out''
     (Directory [(''a'', Directory [(''b'', Directory [(''db'', Directory [])])]),
                 (''db'', Directory [])]))
     = [''/out'', ''/out/a'', ''/out/a/b'', ''/out/a/b/db'', ''/out/db'']"
  by code_simp

text \<open>
  C4, amended: the search selects the directory named exactly \<open>db\<close> that the walk of the
  actual path visits last (the walk is depth first, in the order of the listings), whatever
  its depth; the dconf directory is its parent. When the walk visits no directory named
  \<open>db\<close>, the dconf directory is the actual path itself.
\<close>

theorem C4_last_match_wins:
  "find_dconfDir p root =
     (case filter (\<lambda>v. IsDir (snd v) \<and> Base (fst v) = ''db'') (Walk p root) of
        [] \<Rightarrow> p
      | w # ws \<Rightarrow> Dir (fst (last (w # ws))))"
  unfolding find_dconfDir_def by (rule foldl_dconfDir_visit)

theorem C4_last_match_wins_witness:
  "find_dconfDir ''/out''
     (Directory [(''a'', Directory [(''db'', Directory [])]), (''db'', Directory [])]) = ''/out''
   \<and> find_dconfDir ''/out'' (Directory [(''a'', Directory [(''db'', Directory [])])]) = ''/out/a''
   \<and> find_dconfDir ''/out'' (Directory [(''a'', Regular ''x'')]) = ''/out''"
proof -
  have a: "(case filter (\<lambda>v. IsDir (snd v) \<and> Base (fst v) = ''db'')
              (Walk ''/out'' (Directory [(''a'', Directory [(''db'', Directory [])]), (''db'', Directory [])])) of
            [] \<Rightarrow> ''/out'' | w # ws \<Rightarrow> Dir (fst (last (w # ws)))) = ''/out''"
    by code_simp
  have b: "(case filter (\<lambda>v. IsDir (snd v) \<and> Base (fst v) = ''db'')
              (Walk ''/out'' (Directory [(''a'', Directory [(''db'', Directory [])])])) of
            [] \<Rightarrow> ''/out'' | w # ws \<Rightarrow> Dir (fst (last (w # ws)))) = ''/out/a''"
    by code_simp
  have c: "(case filter (\<lambda>v. IsDir (snd v) \<and> Base (fst v) = ''db'')
              (Walk ''/out'' (Directory [(''a'', Regular ''x'')])) of
            [] \<Rightarrow> ''/out'' | w # ws \<Rightarrow> Dir (fst (last (w # ws)))) = ''/out''"
    by code_simp
  show ?thesis
    using a b c
    unfolding C4_last_match_wins [symmetric] by blast
qed


section \<open>The filter of the copy\<close>

lemma ignoreDconfDB_filter:
  "ignoreDconfDB src es = map fst (filter (\<lambda>e. is_GVariant (snd e)) es)"
proof (induction es)
  case Nil then show ?case by simp
next
  case (Cons e es)
  obtain n x where e: "e = (n, x)" by (cases e)
  show ?case using Cons e by (cases x) auto
qed

lemma ignoreDconfDB_iff:
  assumes "distinct (map fst es)" "(n, x) \<in> set es"
  shows "n \<in> set (ignoreDconfDB src es) \<longleftrightarrow> is_GVariant x"
proof
  assume "n \<in> set (ignoreDconfDB src es)"
  then obtain e where e: "e \<in> set es" "is_GVariant (snd e)" "fst e = n"
    unfolding ignoreDconfDB_filter by auto
  then have "(n, snd e) \<in> set es" by (cases e) auto
  then have "map_of es n = Some (snd e)" using assms(1) by simp
  moreover have "map_of es n = Some x" using assms by simp
  ultimately show "is_GVariant x" using e(2) by simp
next
  assume "is_GVariant x"
  then have "(n, x) \<in> set (filter (\<lambda>e. is_GVariant (snd e)) es)" using assms(2) by simp
  then have "fst (n, x) \<in> fst ` set (filter (\<lambda>e. is_GVariant (snd e)) es)" by (rule imageI)
  then show "n \<in> set (ignoreDconfDB src es)"
    unfolding ignoreDconfDB_filter by simp
qed

lemma CopyTree_entries_names:
  "CopyTree_entries ignore src ign es = Inr es' \<Longrightarrow>
     map fst es' = filter (\<lambda>n. n \<notin> set ign) (map fst es)"
  by (induction es arbitrary: es') (auto split: if_splits sum.splits)

lemma CopyTree_entries_NoRead:
  "(n, NoRead) \<in> set es \<Longrightarrow> n \<notin> set ign \<Longrightarrow> \<exists>err. CopyTree_entries ignore src ign es = Inl err"
  by (induction es) (auto split: sum.splits)

text \<open>
  C8, as stated: a file that the filter cannot read is not added to the ignore list and is
  therefore copied, and the copy is not aborted. The filter does pass over the file, but the
  copy that follows is the copy function's, which cannot open the file either: the copy of
  the tree is aborted by that failure.
\<close>

theorem C8_unreadable_file_aborts_the_copy:
  "ignoreDconfDB ''/out'' [(''f'', NoRead)] = []
   \<and> CopyTree [''/out'' \<mapsto> Directory [(''f'', NoRead)]] ''/out'' ''/gold'' ignoreDconfDB
       = Inl (SourceError ErrPermission)
   \<and> CompareTreesWithFiltering [''/out'' \<mapsto> Directory [(''f'', NoRead)]] ''/out'' ''/gold'' True
       = Fatal (CannotUpdateGolden (SourceError ErrPermission))"
  by (simp add: CopyTree_def CompareTreesWithFiltering_def)

text \<open>
  C8, amended: a per-file read failure inside the filter is treated as "this file is not a
  binary DB": the filter has no error to return, and it does not put the name on the ignore
  list, so \<open>CopyTree\<close> does not leave the entry out. A copy that succeeds holds the entry; the
  copy of a file that cannot be opened fails in the copy function, and that failure ends the
  copy of the tree.
\<close>

theorem C8_read_failure_is_not_ignored:
  assumes "distinct (map fst es)" and "(n, x) \<in> set es" and "ReadFile x = Inl err"
  shows "n \<notin> set (ignoreDconfDB src es)
       \<and> (\<forall>es'. CopyTree_entries ignoreDconfDB src (ignoreDconfDB src es) es = Inr es'
                \<longrightarrow> n \<in> set (map fst es'))
       \<and> (x = NoRead \<longrightarrow>
            (\<exists>e. CopyTree_entries ignoreDconfDB src (ignoreDconfDB src es) es = Inl e))"
proof -
  have g: "\<not> is_GVariant x" using assms(3) by (cases x) auto
  then have a: "n \<notin> set (ignoreDconfDB src es)"
    using ignoreDconfDB_iff[OF assms(1,2)] by simp
  have n: "n \<in> set (map fst es)" using assms(2) by force
  have b: "n \<in> set (map fst es')"
    if "CopyTree_entries ignoreDconfDB src (ignoreDconfDB src es) es = Inr es'" for es'
    using CopyTree_entries_names[OF that] a n by simp
  have c: "\<exists>e. CopyTree_entries ignoreDconfDB src (ignoreDconfDB src es) es = Inl e" if "x = NoRead"
    using CopyTree_entries_NoRead[of n es "ignoreDconfDB src es"] assms(2) a that by simp
  show ?thesis using a b c by blast
qed

theorem C8_read_failure_is_not_ignored_witness:
  "distinct (map fst [(''db'', Regular ''GVariantX''), (''f'', NoRead)])
   \<and> ReadFile NoRead = Inl ErrPermission
   \<and> ''f'' \<notin> set (ignoreDconfDB ''/out'' [(''db'', Regular ''GVariantX''), (''f'', NoRead)])"
proof -
  have a: "distinct (map fst [(''db'', Regular ''GVariantX''), (''f'', NoRead)])" by simp
  have b: "(''f'', NoRead) \<in> set [(''db'', Regular ''GVariantX''), (''f'', NoRead)]" by simp
  have c: "ReadFile NoRead = Inl ErrPermission" by simp
  show ?thesis using C8_read_failure_is_not_ignored [OF a b c, of "''/out''"] a c by blast
qed

section \<open>Stat, Glob and the check of the databases on plain paths\<close>







lemma wf_entries_distinct: "wf_entries es \<Longrightarrow> distinct (map fst es)"
  by (induction es) auto





















section \<open>A tree compared with itself\<close>












end
